theory Spec2Isabelle
  imports Main
begin

section \<open>Table headers of internal/model1/header.go\<close>

text \<open>
  Go strings are byte sequences; they are modelled as \<open>string\<close> (a list of 8-bit
  characters). Go's \<open>int\<close> is modelled as \<open>int\<close>: every integer of this file is a
  position in a slice or the sentinel \<open>-1\<close>, far from the 64-bit bounds. Calls of the
  logger only observe and are left out.
\<close>

subsection \<open>Data model\<close>

text \<open>
  Modelled from the spec: the declaration of \<open>DecoratorFunc\<close> is not part of header.go.
  It is a function-valued handle: \<open>None\<close> is the nil function, \<open>Some k\<close> the
  function value with identity \<open>k\<close>.
\<close>

type_synonym DecoratorFunc = "nat option"

record ExtractionInfo =
  IdxInFields :: int
  CustomName :: string
  HeaderName :: string
  Key :: string

type_synonym ExtractionInfoBag = "int \<rightharpoonup> ExtractionInfo"

record HeaderColumn =
  Name :: string
  Align :: int
  Decorator :: DecoratorFunc
  Wide :: bool
  MX :: bool
  Time :: bool
  Capacity :: bool
  VS :: bool

type_synonym Header = "HeaderColumn list"

text \<open>The zero values Go gives to a struct whose fields are not set.\<close>

definition zeroExtractionInfo :: ExtractionInfo where
  "zeroExtractionInfo =
     \<lparr>IdxInFields = 0, CustomName = [], HeaderName = [], Key = []\<rparr>"

definition zeroHeaderColumn :: HeaderColumn where
  "zeroHeaderColumn =
     \<lparr>Name = [], Align = 0, Decorator = None, Wide = False, MX = False,
      Time = False, Capacity = False, VS = False\<rparr>"

text \<open>\<open>HeaderColumn{Name: n}\<close>: a composite literal that sets the name only.\<close>

definition namedColumn :: "string \<Rightarrow> HeaderColumn" where
  "namedColumn n = zeroHeaderColumn\<lparr>Name := n\<rparr>"

text \<open>Reading a map at a key it does not hold yields the zero value.\<close>

definition bagAt :: "ExtractionInfoBag \<Rightarrow> int \<Rightarrow> ExtractionInfo" where
  "bagAt eib i = (case eib i of None \<Rightarrow> zeroExtractionInfo | Some e \<Rightarrow> e)"

text \<open>An index expression \<open>h[i]\<close> panics out of range.\<close>

datatype error = IndexOutOfRange

definition at_index :: "Header \<Rightarrow> int \<Rightarrow> error + HeaderColumn" where
  "at_index h i =
     (if 0 \<le> i \<and> i < int (length h) then Inr (h ! nat i) else Inl IndexOutOfRange)"

definition ageCol :: string where
  "ageCol = ''AGE''"

definition HeaderColumn_Clone :: "HeaderColumn \<Rightarrow> HeaderColumn" where
  "HeaderColumn_Clone h = h"

subsection \<open>IndexOf\<close>

text \<open>The loop of \<open>IndexOf\<close>; \<open>i\<close> is the position of the head of the remaining columns.\<close>

fun IndexOf_loop :: "Header \<Rightarrow> string \<Rightarrow> bool \<Rightarrow> int \<Rightarrow> int \<times> bool" where
  "IndexOf_loop [] colName includeWide i = (- 1, False)"
| "IndexOf_loop (c # cs) colName includeWide i =
     (if Wide c \<and> \<not> includeWide then IndexOf_loop cs colName includeWide (i + 1)
      else if Name c = colName then (i, True)
      else IndexOf_loop cs colName includeWide (i + 1))"

definition IndexOf :: "Header \<Rightarrow> string \<Rightarrow> bool \<Rightarrow> int \<times> bool" where
  "IndexOf h colName includeWide = IndexOf_loop h colName includeWide 0"

subsection \<open>Role queries\<close>

definition HasAge :: "Header \<Rightarrow> bool" where
  "HasAge h = snd (IndexOf h ageCol True)"

definition IsMetricsCol :: "Header \<Rightarrow> int \<Rightarrow> error + bool" where
  "IsMetricsCol h col =
     (if col < 0 \<or> col \<ge> int (length h) then Inr False
      else map_sum id MX (at_index h col))"

definition IsTimeCol :: "Header \<Rightarrow> int \<Rightarrow> error + bool" where
  "IsTimeCol h col =
     (if col < 0 \<or> col \<ge> int (length h) then Inr False
      else map_sum id Time (at_index h col))"

definition IsCapacityCol :: "Header \<Rightarrow> int \<Rightarrow> error + bool" where
  "IsCapacityCol h col =
     (if col < 0 \<or> col \<ge> int (length h) then Inr False
      else map_sum id Capacity (at_index h col))"

subsection \<open>The pattern of MapIndices\<close>

text \<open>
  Go's regexp package finds the leftmost match and, among the matches that start there,
  the one a backtracking search finds first. The matcher below is that search, in
  continuation-passing style, for the operators the pattern uses. It works on bytes where
  Go works on UTF-8 code points: every literal and \<open>\s\<close> of the pattern is ASCII, and
  the three classes \<open>.\<close>, \<open>[^:]\<close> accept every byte of a multi-byte (or invalid)
  sequence, so both searches accept the same strings with the same group borders.
\<close>

datatype cls = Lit char | NotLit char | AnyNotNL | Space

fun cls_ok :: "cls \<Rightarrow> char \<Rightarrow> bool" where
  "cls_ok (Lit a) c = (c = a)"
| "cls_ok (NotLit a) c = (c \<noteq> a)"
| "cls_ok AnyNotNL c = (c \<noteq> CHR 0x0A)"
| "cls_ok Space c = (c = CHR 0x09 \<or> c = CHR 0x0A \<or> c = CHR 0x0C \<or> c = CHR 0x0D \<or> c = CHR 0x20)"

datatype re = Bol | Eol | One cls | Star cls | Plus cls | Cat re re | Opt re | Grp nat re

type_synonym caps = "nat \<rightharpoonup> string"

text \<open>Greedy repetition of a class: first try one more character, then stop here.\<close>

primrec star_run :: "cls \<Rightarrow> string \<Rightarrow> (string \<Rightarrow> 'r option) \<Rightarrow> 'r option" where
  "star_run c [] k = k []"
| "star_run c (x # xs) k =
     (if cls_ok c x
      then (case star_run c xs k of Some r \<Rightarrow> Some r | None \<Rightarrow> k (x # xs))
      else k (x # xs))"

text \<open>
  \<open>run r inp s cp k\<close>: match \<open>r\<close> at the front of the remaining text \<open>s\<close> of the
  input \<open>inp\<close>, with the groups \<open>cp\<close> captured so far, and go on with \<open>k\<close>.
\<close>

primrec run :: "re \<Rightarrow> string \<Rightarrow> string \<Rightarrow> caps \<Rightarrow> (string \<Rightarrow> caps \<Rightarrow> 'r option) \<Rightarrow> 'r option" where
  "run Bol inp s cp k = (if length s = length inp then k s cp else None)"
| "run Eol inp s cp k = (if s = [] then k s cp else None)"
| "run (One c) inp s cp k =
     (case s of [] \<Rightarrow> None | x # xs \<Rightarrow> if cls_ok c x then k xs cp else None)"
| "run (Star c) inp s cp k = star_run c s (\<lambda>s'. k s' cp)"
| "run (Plus c) inp s cp k =
     (case s of [] \<Rightarrow> None
      | x # xs \<Rightarrow> if cls_ok c x then star_run c xs (\<lambda>s'. k s' cp) else None)"
| "run (Cat a b) inp s cp k = run a inp s cp (\<lambda>s' cp'. run b inp s' cp' k)"
| "run (Opt a) inp s cp k =
     (case run a inp s cp k of Some r \<Rightarrow> Some r | None \<Rightarrow> k s cp)"
| "run (Grp n a) inp s cp k =
     run a inp s cp (\<lambda>s' cp'. k s' (cp'(n \<mapsto> take (length s - length s') s)))"

text \<open>The search for the leftmost match: every start offset, in order.\<close>

fun search :: "re \<Rightarrow> string \<Rightarrow> string \<Rightarrow> (string \<times> caps) option" where
  "search r inp [] = run r inp [] Map.empty (\<lambda>s' cp. Some ([], cp))"
| "search r inp (x # xs) =
     (case run r inp (x # xs) Map.empty
             (\<lambda>s' cp. Some (take (length (x # xs) - length s') (x # xs), cp)) of
        Some m \<Rightarrow> Some m
      | None \<Rightarrow> search r inp xs)"

definition MatchString :: "re \<Rightarrow> string \<Rightarrow> bool" where
  "MatchString r s = (search r s s \<noteq> None)"

text \<open>
  \<open>FindStringSubmatch\<close> for a pattern of three groups: nil (the empty list) without
  a match, else the matched text and the text of each group, empty for a group that
  took no part in the match.
\<close>

definition group_text :: "caps \<Rightarrow> nat \<Rightarrow> string" where
  "group_text cp n = (case cp n of None \<Rightarrow> [] | Some t \<Rightarrow> t)"

definition FindStringSubmatch :: "re \<Rightarrow> string \<Rightarrow> string list" where
  "FindStringSubmatch r s =
     (case search r s s of None \<Rightarrow> []
      | Some (m, cp) \<Rightarrow> [m, group_text cp 1, group_text cp 2, group_text cp 3])"

text \<open>The pattern \<^verbatim>\<open>^(?:([^:]+):\s*)?(.*)\[(.*)\]$\<close>.\<close>

definition rgx :: re where
  "rgx =
     Cat Bol
    (Cat (Opt (Cat (Grp 1 (Plus (NotLit CHR '':''))) (Cat (One (Lit CHR '':'')) (Star Space))))
    (Cat (Grp 2 (Star AnyNotNL))
    (Cat (One (Lit CHR ''[''))
    (Cat (Grp 3 (Star AnyNotNL))
    (Cat (One (Lit CHR '']'')) Eol)))))"

subsection \<open>strings.TrimSpace\<close>

text \<open>
  \<open>TrimSpace\<close> removes the leading and trailing white space of Unicode: the six ASCII
  characters and the code points U+0085, U+00A0, U+1680, U+2000 to U+200A, U+2028,
  U+2029, U+202F, U+205F and U+3000, here in their UTF-8 encodings.
\<close>

definition spaces :: "string list" where
  "spaces =
     map (\<lambda>c. [c]) [CHR 0x09, CHR 0x0A, CHR 0x0B, CHR 0x0C, CHR 0x0D, CHR 0x20]
     @ [[CHR 0xC2, CHR 0x85], [CHR 0xC2, CHR 0xA0], [CHR 0xE1, CHR 0x9A, CHR 0x80]]
     @ map (\<lambda>c. [CHR 0xE2, CHR 0x80, c])
         [CHR 0x80, CHR 0x81, CHR 0x82, CHR 0x83, CHR 0x84, CHR 0x85, CHR 0x86, CHR 0x87,
          CHR 0x88, CHR 0x89, CHR 0x8A, CHR 0xA8, CHR 0xA9, CHR 0xAF]
     @ [[CHR 0xE2, CHR 0x81, CHR 0x9F], [CHR 0xE3, CHR 0x80, CHR 0x80]]"

text \<open>The length of the white-space code point at the front of a string, if there is one.\<close>

definition space_prefix :: "string list \<Rightarrow> string \<Rightarrow> nat option" where
  "space_prefix sps s = map_option length (find (\<lambda>sp. take (length sp) s = sp) sps)"

text \<open>The fuel bounds the number of code points removed; the length of the string is enough.\<close>

fun trim_left :: "string list \<Rightarrow> nat \<Rightarrow> string \<Rightarrow> string" where
  "trim_left sps 0 s = s"
| "trim_left sps (Suc n) s =
     (case space_prefix sps s of None \<Rightarrow> s | Some k \<Rightarrow> trim_left sps n (drop k s))"

definition TrimSpace :: "string \<Rightarrow> string" where
  "TrimSpace s =
     (let l = trim_left spaces (length s) s
      in rev (trim_left (map rev spaces) (length l) (rev l)))"

subsection \<open>MapIndices\<close>

text \<open>The loop of \<open>MapIndices\<close> over the remaining specs, with the results so far.\<close>

fun MapIndices_loop ::
  "Header \<Rightarrow> string list \<Rightarrow> int list \<times> ExtractionInfoBag \<Rightarrow> int list \<times> ExtractionInfoBag" where
  "MapIndices_loop h [] (ii, eib) = (ii, eib)"
| "MapIndices_loop h (col # cols) (ii, eib) =
     (let (idx, ok) = IndexOf h col True;
          ii' = ii @ [idx]
      in if \<not> MatchString rgx col then MapIndices_loop h cols (ii', eib)
         else
           let matches = FindStringSubmatch rgx col
           in if length matches < 4 then MapIndices_loop h cols (ii', eib)
              else
                let customName = TrimSpace (matches ! 1);
                    headerName = matches ! 2;
                    key = matches ! 3
                in if headerName \<noteq> ''LABELS'' then MapIndices_loop h cols (ii', eib)
                   else
                     let (idxInFields, _) = IndexOf h headerName True
                     in MapIndices_loop h cols
                          (ii', eib(int (length ii') - 1 \<mapsto>
                             \<lparr>IdxInFields = idxInFields, CustomName = customName,
                              HeaderName = headerName, Key = key\<rparr>)))"

definition MapIndices :: "Header \<Rightarrow> string list \<Rightarrow> bool \<Rightarrow> int list \<times> ExtractionInfoBag" where
  "MapIndices h cols wide = MapIndices_loop h cols ([], Map.empty)"

subsection \<open>Customize\<close>

text \<open>
  The first loop of \<open>Customize\<close>: \<open>i\<close> is the position of the head of the remaining
  specs, \<open>cc\<close> the columns built so far, \<open>xx\<close> the set of consumed indices.
\<close>

fun Customize_specs ::
  "Header \<Rightarrow> ExtractionInfoBag \<Rightarrow> string list \<Rightarrow> int \<Rightarrow> Header \<times> (int \<rightharpoonup> unit)
     \<Rightarrow> error + Header \<times> (int \<rightharpoonup> unit)" where
  "Customize_specs h eib [] i (cc, xx) = Inr (cc, xx)"
| "Customize_specs h eib (c # cs) i (cc, xx) =
     (let (idx, ok) = IndexOf h c True
      in if \<not> ok
         then Customize_specs h eib cs (i + 1)
                (cc @ [namedColumn (CustomName (bagAt eib i))], xx)
         else
           (case at_index h idx of
              Inl e \<Rightarrow> Inl e
            | Inr hc \<Rightarrow>
                Customize_specs h eib cs (i + 1)
                  (cc @ [(HeaderColumn_Clone hc)\<lparr>Wide := False\<rparr>], xx(idx \<mapsto> ()))))"

text \<open>The second loop: the columns of the header that no spec consumed.\<close>

fun Customize_wide :: "Header \<Rightarrow> int \<Rightarrow> (int \<rightharpoonup> unit) \<Rightarrow> Header \<Rightarrow> Header" where
  "Customize_wide [] i xx cc = cc"
| "Customize_wide (c # cs) i xx cc =
     (if xx i \<noteq> None then Customize_wide cs (i + 1) xx cc
      else Customize_wide cs (i + 1) xx (cc @ [(HeaderColumn_Clone c)\<lparr>Wide := True\<rparr>]))"

definition Customize :: "Header \<Rightarrow> string list \<Rightarrow> bool \<Rightarrow> error + Header" where
  "Customize h cols wide =
     (if length cols = 0 then Inr h
      else
        let (_, extractionInfoBag) = MapIndices h cols wide
        in (case Customize_specs h extractionInfoBag cols 0 ([], Map.empty) of
              Inl e \<Rightarrow> Inl e
            | Inr (cc, xx) \<Rightarrow> if \<not> wide then Inr cc else Inr (Customize_wide h 0 xx cc)))"

subsection \<open>Diff\<close>

text \<open>
  \<open>reflect.DeepEqual\<close> looks at more than the columns of a header: at whether a slice
  is nil, and at the address of its first element. A slice is therefore nil or a base
  address with a length, and its columns are read from a store of columns.
\<close>

datatype slice = NilSlice | Slice nat nat

type_synonym store = "nat \<Rightarrow> HeaderColumn"

fun len :: "slice \<Rightarrow> nat" where
  "len NilSlice = 0"
| "len (Slice p n) = n"

fun isNil :: "slice \<Rightarrow> bool" where
  "isNil NilSlice = True"
| "isNil (Slice p n) = False"

fun ptr :: "slice \<Rightarrow> nat option" where
  "ptr NilSlice = None"
| "ptr (Slice p n) = Some p"

fun elems :: "store \<Rightarrow> slice \<Rightarrow> Header" where
  "elems st NilSlice = []"
| "elems st (Slice p n) = map st [p..<p + n]"

text \<open>
  Function values are deeply equal if both are nil, and otherwise not; strings, integers
  and booleans are compared by value; structs field by field.
\<close>

definition funcDeepEqual :: "DecoratorFunc \<Rightarrow> DecoratorFunc \<Rightarrow> bool" where
  "funcDeepEqual f g = (f = None \<and> g = None)"

definition columnDeepEqual :: "HeaderColumn \<Rightarrow> HeaderColumn \<Rightarrow> bool" where
  "columnDeepEqual a b =
     (Name a = Name b \<and> Align a = Align b \<and> funcDeepEqual (Decorator a) (Decorator b)
      \<and> Wide a = Wide b \<and> MX a = MX b \<and> Time a = Time b \<and> Capacity a = Capacity b
      \<and> VS a = VS b)"

text \<open>
  Slices are deeply equal when both or neither is nil, their lengths agree, and they start
  at the same element or their elements are deeply equal, one by one.
\<close>

definition DeepEqual :: "store \<Rightarrow> slice \<Rightarrow> slice \<Rightarrow> bool" where
  "DeepEqual st a b =
     (if isNil a \<noteq> isNil b then False
      else if len a \<noteq> len b then False
      else if ptr a = ptr b then True
      else list_all2 columnDeepEqual (elems st a) (elems st b))"

definition Diff :: "store \<Rightarrow> slice \<Rightarrow> slice \<Rightarrow> bool" where
  "Diff st h header = (if len h \<noteq> len header then True else \<not> DeepEqual st h header)"

section \<open>Properties\<close>

subsection \<open>IndexOf\<close>

lemma IndexOf_loop_found:
  "snd (IndexOf_loop h n True i) \<longleftrightarrow> (\<exists>c\<in>set h. Name c = n)"
  by (induction h arbitrary: i) auto

lemma IndexOf_loop_notfound:
  "\<not> snd (IndexOf_loop h n iw i) \<Longrightarrow> fst (IndexOf_loop h n iw i) = - 1"
  by (induction h arbitrary: i) auto

lemma IndexOf_loop_range:
  "snd (IndexOf_loop h n iw i) \<Longrightarrow>
     i \<le> fst (IndexOf_loop h n iw i) \<and> fst (IndexOf_loop h n iw i) < i + int (length h)
     \<and> Name (h ! nat (fst (IndexOf_loop h n iw i) - i)) = n"
proof (induction h arbitrary: i)
  case Nil
  then show ?case by simp
next
  case (Cons c cs)
  show ?case
  proof (cases "(Wide c \<and> \<not> iw) \<or> Name c \<noteq> n")
    case True
    then have eq: "IndexOf_loop (c # cs) n iw i = IndexOf_loop cs n iw (i + 1)" by auto
    with Cons.prems have "snd (IndexOf_loop cs n iw (i + 1))" by simp
    from Cons.IH[OF this] have ih: "i + 1 \<le> fst (IndexOf_loop cs n iw (i + 1))"
      "fst (IndexOf_loop cs n iw (i + 1)) < i + 1 + int (length cs)"
      "Name (cs ! nat (fst (IndexOf_loop cs n iw (i + 1)) - (i + 1))) = n" by auto
    have "nat (fst (IndexOf_loop cs n iw (i + 1)) - i)
            = Suc (nat (fst (IndexOf_loop cs n iw (i + 1)) - (i + 1)))"
      using ih(1) by linarith
    then show ?thesis using ih eq by simp
  next
    case False
    then show ?thesis by auto
  qed
qed

lemma IndexOf_ok_range:
  assumes "IndexOf h n iw = (idx, True)"
  shows "0 \<le> idx" "idx < int (length h)" "Name (h ! nat idx) = n"
  using IndexOf_loop_range[of h n iw 0] assms by (simp_all add: IndexOf_def)

lemma IndexOf_not_ok: "IndexOf h n iw = (idx, False) \<Longrightarrow> idx = - 1"
  using IndexOf_loop_notfound[of h n iw 0] by (simp add: IndexOf_def)

lemma IndexOf_ok_iff: "snd (IndexOf h n True) \<longleftrightarrow> (\<exists>c\<in>set h. Name c = n)"
  by (simp add: IndexOf_def IndexOf_loop_found)

lemma at_index_IndexOf:
  "IndexOf h n iw = (idx, True) \<Longrightarrow> at_index h idx = Inr (h ! nat idx)"
  using IndexOf_ok_range[of h n iw idx] by (simp add: at_index_def)

subsection \<open>Role queries\<close>

text \<open>
  C8. \<open>IsMetricsCol\<close>, \<open>IsTimeCol\<close> and \<open>IsCapacityCol\<close> return false, and do not
  panic, when the index is negative or at least the length of the header; otherwise they
  return the flag of the column at that index. \<open>HasAge\<close> holds if and only if some
  column, wide or not, is named AGE.
\<close>

theorem role_queries_bounds_checked:
  "(i < 0 \<or> int (length h) \<le> i \<longrightarrow>
      IsMetricsCol h i = Inr False \<and> IsTimeCol h i = Inr False
      \<and> IsCapacityCol h i = Inr False)
   \<and> (0 \<le> i \<and> i < int (length h) \<longrightarrow>
      IsMetricsCol h i = Inr (MX (h ! nat i)) \<and> IsTimeCol h i = Inr (Time (h ! nat i))
      \<and> IsCapacityCol h i = Inr (Capacity (h ! nat i)))
   \<and> (HasAge h \<longleftrightarrow> (\<exists>c\<in>set h. Name c = ''AGE''))"
  by (auto simp: IsMetricsCol_def IsTimeCol_def IsCapacityCol_def at_index_def HasAge_def
      ageCol_def IndexOf_ok_iff)

theorem role_queries_bounds_checked_witness:
  "IsMetricsCol [\<lparr>Name = ''AGE'', Align = 0, Decorator = None, Wide = True, MX = True,
                  Time = False, Capacity = True, VS = False\<rparr>] 0 = Inr True
   \<and> IsTimeCol [\<lparr>Name = ''AGE'', Align = 0, Decorator = None, Wide = True, MX = True,
                  Time = False, Capacity = True, VS = False\<rparr>] 0 = Inr False
   \<and> IsCapacityCol [\<lparr>Name = ''AGE'', Align = 0, Decorator = None, Wide = True, MX = True,
                  Time = False, Capacity = True, VS = False\<rparr>] 1 = Inr False
   \<and> IsMetricsCol [\<lparr>Name = ''AGE'', Align = 0, Decorator = None, Wide = True, MX = True,
                  Time = False, Capacity = True, VS = False\<rparr>] (- 1) = Inr False
   \<and> HasAge [\<lparr>Name = ''AGE'', Align = 0, Decorator = None, Wide = True, MX = True,
                  Time = False, Capacity = True, VS = False\<rparr>]"
  using
    role_queries_bounds_checked [of 0 "[\<lparr>Name = ''AGE'', Align = 0, Decorator = None,
      Wide = True, MX = True, Time = False, Capacity = True, VS = False\<rparr>]"]
    role_queries_bounds_checked [of 1 "[\<lparr>Name = ''AGE'', Align = 0, Decorator = None,
      Wide = True, MX = True, Time = False, Capacity = True, VS = False\<rparr>]"]
    role_queries_bounds_checked [of "- 1" "[\<lparr>Name = ''AGE'', Align = 0, Decorator = None,
      Wide = True, MX = True, Time = False, Capacity = True, VS = False\<rparr>]"]
  by simp

subsection \<open>TrimSpace\<close>

text \<open>The fuel of \<open>trim_left\<close> in \<open>TrimSpace\<close> is enough: no white space is left.\<close>

lemma space_prefix_Some:
  assumes "space_prefix sps s = Some k" and "[] \<notin> set sps"
  shows "0 < k \<and> k \<le> length s"
proof -
  from assms(1) obtain sp where sp: "find (\<lambda>sp. take (length sp) s = sp) sps = Some sp"
    and k: "k = length sp"
    by (auto simp: space_prefix_def)
  from sp have "sp \<in> set sps" "take (length sp) s = sp"
    by (auto simp: find_Some_iff)
  with assms(2) have "sp \<noteq> []" "length sp \<le> length s"
    by (auto simp: min_def dest: arg_cong[where f = length] split: if_splits)
  with k show ?thesis by simp
qed

lemma trim_left_enough_fuel:
  "[] \<notin> set sps \<Longrightarrow> length s \<le> n \<Longrightarrow> space_prefix sps (trim_left sps n s) = None"
proof (induction n arbitrary: s)
  case 0
  then have "s = []" by simp
  with 0 show ?case
    by (cases "space_prefix sps []") (auto dest: space_prefix_Some)
next
  case (Suc n)
  show ?case
  proof (cases "space_prefix sps s")
    case None
    then show ?thesis by simp
  next
    case (Some k)
    with Suc.prems have "0 < k \<and> k \<le> length s" by (auto dest: space_prefix_Some)
    with Suc.prems have "length (drop k s) \<le> n" by auto
    with Suc.IH[OF Suc.prems(1)] Some show ?thesis by simp
  qed
qed

lemma TrimSpace_fuel:
  "space_prefix spaces (trim_left spaces (length s) s) = None"
  "space_prefix (map rev spaces) (trim_left (map rev spaces) (length s) s) = None"
  by (rule trim_left_enough_fuel; simp add: spaces_def)+

subsection \<open>MapIndices\<close>

lemma MatchString_submatch:
  "MatchString r s \<Longrightarrow> length (FindStringSubmatch r s) = 4"
  by (auto simp: MatchString_def FindStringSubmatch_def split: option.splits)

lemma MapIndices_loop_step:
  "MapIndices_loop h (col # cols) (ii, eib) =
     MapIndices_loop h cols
       (ii @ [fst (IndexOf h col True)],
        if MatchString rgx col \<and> FindStringSubmatch rgx col ! 2 = ''LABELS''
        then eib(int (length ii) \<mapsto>
               \<lparr>IdxInFields = fst (IndexOf h ''LABELS'' True),
                CustomName = TrimSpace (FindStringSubmatch rgx col ! 1),
                HeaderName = ''LABELS'',
                Key = FindStringSubmatch rgx col ! 3\<rparr>)
        else eib)"
  by (simp add: Let_def MatchString_submatch split: prod.splits)

lemma MapIndices_loop_fst:
  "fst (MapIndices_loop h cols (ii, eib)) = ii @ map (\<lambda>c. fst (IndexOf h c True)) cols"
proof (induction cols arbitrary: ii eib)
  case Nil
  show ?case by simp
next
  case (Cons col cols)
  show ?case unfolding MapIndices_loop_step Cons.IH by simp
qed

lemma MapIndices_loop_snd:
  "snd (MapIndices_loop h cols (ii, eib)) k =
     (if int (length ii) \<le> k \<and> k < int (length ii) + int (length cols)
         \<and> MatchString rgx (cols ! nat (k - int (length ii)))
         \<and> FindStringSubmatch rgx (cols ! nat (k - int (length ii))) ! 2 = ''LABELS''
      then Some \<lparr>IdxInFields = fst (IndexOf h ''LABELS'' True),
                CustomName = TrimSpace (FindStringSubmatch rgx (cols ! nat (k - int (length ii))) ! 1),
                HeaderName = ''LABELS'',
                Key = FindStringSubmatch rgx (cols ! nat (k - int (length ii))) ! 3\<rparr>
      else eib k)"
proof (induction cols arbitrary: ii eib)
  case Nil
  show ?case by auto
next
  case (Cons col cols)
  show ?case
  proof (cases "k = int (length ii)")
    case True
    then show ?thesis unfolding MapIndices_loop_step Cons.IH by simp
  next
    case False
    show ?thesis
    proof (cases "int (length ii) + 1 \<le> k")
      case True
      define m where "m = nat (k - int (length ii) - 1)"
      have k: "k = int (length ii) + 1 + int m"
        using True by (simp add: m_def)
      have n1: "nat (k - int (length (ii @ [fst (IndexOf h col True)]))) = m"
        by (simp add: k)
      have n2: "nat (k - int (length ii)) = Suc m"
        by (simp add: k)
      have c1: "int (length (ii @ [fst (IndexOf h col True)])) \<le> k"
        by (simp add: k)
      have c2: "k < int (length (ii @ [fst (IndexOf h col True)])) + int (length cols)
                 \<longleftrightarrow> k < int (length ii) + int (length (col # cols))"
        by (simp add: k)
      have c3: "int (length ii) \<le> k" "k \<noteq> int (length ii)"
        by (simp_all add: k)
      show ?thesis
        unfolding MapIndices_loop_step Cons.IH n1 n2 c2
        using c1 c3 by simp
    next
      case b: False
      with False have "k < int (length ii)" by linarith
      then show ?thesis unfolding MapIndices_loop_step Cons.IH by simp
    qed
  qed
qed

lemma MapIndices_snd:
  "snd (MapIndices h cols wide) k =
     (if 0 \<le> k \<and> k < int (length cols)
         \<and> MatchString rgx (cols ! nat k)
         \<and> FindStringSubmatch rgx (cols ! nat k) ! 2 = ''LABELS''
      then Some \<lparr>IdxInFields = fst (IndexOf h ''LABELS'' True),
                CustomName = TrimSpace (FindStringSubmatch rgx (cols ! nat k) ! 1),
                HeaderName = ''LABELS'',
                Key = FindStringSubmatch rgx (cols ! nat k) ! 3\<rparr>
      else None)"
  using MapIndices_loop_snd[of h cols "[]" Map.empty k] by (simp add: MapIndices_def)

text \<open>
  C4. The bag returned by \<open>MapIndices\<close> has an entry exactly at the positions of the
  specs that match the pattern with the header name LABELS in group 2. The entry at such a
  position holds \<open>IndexOf("LABELS", true)\<close>, the text of group 1 with its white space
  trimmed, the header name and the text of group 3. Every other key, inside or outside the
  list of specs, has no entry.
\<close>

theorem MapIndices_bag:
  "snd (MapIndices h cols wide) k =
     (if 0 \<le> k \<and> k < int (length cols)
         \<and> MatchString rgx (cols ! nat k)
         \<and> FindStringSubmatch rgx (cols ! nat k) ! 2 = ''LABELS''
      then Some \<lparr>IdxInFields = fst (IndexOf h ''LABELS'' True),
                CustomName = TrimSpace (FindStringSubmatch rgx (cols ! nat k) ! 1),
                HeaderName = ''LABELS'',
                Key = FindStringSubmatch rgx (cols ! nat k) ! 3\<rparr>
      else None)"
  by (rule MapIndices_snd)

text \<open>
  C5. The index list returned by \<open>MapIndices\<close> is as long as the list of specs; its
  entry at position \<open>k\<close> is the index \<open>IndexOf\<close> finds for the spec at position
  \<open>k\<close>, and it is either \<open>-1\<close> or a valid index into the header.
\<close>

theorem MapIndices_indices:
  "length (fst (MapIndices h cols wide)) = length cols
   \<and> (\<forall>k < length cols.
        fst (MapIndices h cols wide) ! k = fst (IndexOf h (cols ! k) True)
        \<and> (fst (MapIndices h cols wide) ! k = - 1
           \<or> (0 \<le> fst (MapIndices h cols wide) ! k
              \<and> fst (MapIndices h cols wide) ! k < int (length h))))"
proof -
  have eq: "fst (MapIndices h cols wide) = map (\<lambda>c. fst (IndexOf h c True)) cols"
    by (simp add: MapIndices_def MapIndices_loop_fst)
  have rng: "fst (IndexOf h c True) = - 1
      \<or> (0 \<le> fst (IndexOf h c True) \<and> fst (IndexOf h c True) < int (length h))" for c
  proof (cases "IndexOf h c True")
    case (Pair idx ok)
    then show ?thesis
      using IndexOf_ok_range(1,2)[of h c True idx] IndexOf_not_ok[of h c True idx]
      by (cases ok) auto
  qed
  show ?thesis unfolding eq using rng by simp
qed

text \<open>
  C9. \<open>MapIndices\<close> never reads its \<open>wide\<close> argument: both values give the same
  index list and the same bag.
\<close>

theorem MapIndices_ignores_wide:
  "MapIndices h cols True = MapIndices h cols False"
  by (simp add: MapIndices_def)

subsection \<open>The loops of Customize\<close>

lemma Customize_specs_eq:
  "Customize_specs h eib cs i (cc, xx) =
     Inr (cc @ map (\<lambda>k. if snd (IndexOf h (cs ! k) True)
                         then (h ! nat (fst (IndexOf h (cs ! k) True)))\<lparr>Wide := False\<rparr>
                         else namedColumn (CustomName (bagAt eib (i + int k))))
                 [0..<length cs],
          \<lambda>j. if \<exists>c\<in>set cs. IndexOf h c True = (j, True) then Some () else xx j)"
proof (induction cs arbitrary: i cc xx)
  case Nil
  show ?case by simp
next
  case (Cons c cs)
  obtain idx ok where io: "IndexOf h c True = (idx, ok)" by (cases "IndexOf h c True")
  show ?case
  proof (cases ok)
    case True
    have at: "at_index h idx = Inr (h ! nat idx)"
      using at_index_IndexOf io True by simp
    have xx: "(\<lambda>j. if \<exists>c\<in>set cs. IndexOf h c True = (j, True) then Some ()
                   else (xx(idx \<mapsto> ())) j)
            = (\<lambda>j. if \<exists>c'\<in>set (c # cs). IndexOf h c' True = (j, True) then Some ()
                   else xx j)"
      using io True by (auto simp: fun_eq_iff)
    have "Customize_specs h eib (c # cs) i (cc, xx) =
            Customize_specs h eib cs (i + 1) (cc @ [(h ! nat idx)\<lparr>Wide := False\<rparr>], xx(idx \<mapsto> ()))"
      using io True at by (simp add: HeaderColumn_Clone_def)
    also have "\<dots> = Inr (cc @ (h ! nat idx)\<lparr>Wide := False\<rparr> #
           map (\<lambda>k. if snd (IndexOf h (cs ! k) True)
                         then (h ! nat (fst (IndexOf h (cs ! k) True)))\<lparr>Wide := False\<rparr>
                         else namedColumn (CustomName (bagAt eib (i + 1 + int k))))
                 [0..<length cs],
          \<lambda>j. if \<exists>c'\<in>set (c # cs). IndexOf h c' True = (j, True) then Some () else xx j)"
      unfolding Cons.IH xx by simp
    also have "\<dots> = Inr (cc @ map (\<lambda>k. if snd (IndexOf h ((c # cs) ! k) True)
                         then (h ! nat (fst (IndexOf h ((c # cs) ! k) True)))\<lparr>Wide := False\<rparr>
                         else namedColumn (CustomName (bagAt eib (i + int k))))
                 [0..<length (c # cs)],
          \<lambda>j. if \<exists>c'\<in>set (c # cs). IndexOf h c' True = (j, True) then Some () else xx j)"
      using io True by (simp add: map_upt_Suc add.assoc del: upt_Suc)
    finally show ?thesis .
  next
    case False
    have xx: "(\<lambda>j. if \<exists>c\<in>set cs. IndexOf h c True = (j, True) then Some ()
                   else xx j)
            = (\<lambda>j. if \<exists>c'\<in>set (c # cs). IndexOf h c' True = (j, True) then Some ()
                   else xx j)"
      using io False by (auto simp: fun_eq_iff)
    have "Customize_specs h eib (c # cs) i (cc, xx) =
            Customize_specs h eib cs (i + 1) (cc @ [namedColumn (CustomName (bagAt eib i))], xx)"
      using io False by simp
    also have "\<dots> = Inr (cc @ namedColumn (CustomName (bagAt eib i)) #
           map (\<lambda>k. if snd (IndexOf h (cs ! k) True)
                         then (h ! nat (fst (IndexOf h (cs ! k) True)))\<lparr>Wide := False\<rparr>
                         else namedColumn (CustomName (bagAt eib (i + 1 + int k))))
                 [0..<length cs],
          \<lambda>j. if \<exists>c'\<in>set (c # cs). IndexOf h c' True = (j, True) then Some () else xx j)"
      unfolding Cons.IH xx by simp
    also have "\<dots> = Inr (cc @ map (\<lambda>k. if snd (IndexOf h ((c # cs) ! k) True)
                         then (h ! nat (fst (IndexOf h ((c # cs) ! k) True)))\<lparr>Wide := False\<rparr>
                         else namedColumn (CustomName (bagAt eib (i + int k))))
                 [0..<length (c # cs)],
          \<lambda>j. if \<exists>c'\<in>set (c # cs). IndexOf h c' True = (j, True) then Some () else xx j)"
      using io False by (simp add: map_upt_Suc add.assoc del: upt_Suc)
    finally show ?thesis .
  qed
qed

lemma Customize_wide_eq:
  "Customize_wide cs (int n) xx cc =
     cc @ map (\<lambda>(k, c). c\<lparr>Wide := True\<rparr>)
            (filter (\<lambda>(k, c). xx (int k) = None) (enumerate n cs))"
proof (induction cs arbitrary: n cc)
  case Nil
  show ?case by simp
next
  case (Cons c cs)
  have step: "int n + 1 = int (Suc n)" by simp
  show ?case
    unfolding Customize_wide.simps step Cons.IH by (simp add: HeaderColumn_Clone_def)
qed

subsection \<open>Customize\<close>

lemma enumerate_0_upt: "enumerate 0 xs = map (\<lambda>i. (i, xs ! i)) [0..<length xs]"
  by (rule nth_equalityI) (simp_all add: nth_enumerate_eq)

lemma wide_columns_by_index:
  "map (\<lambda>(k, c). f c) (filter (\<lambda>(k, c). P k) (enumerate 0 xs))
     = map (\<lambda>i. f (xs ! i)) (filter P [0..<length xs])"
  by (simp add: enumerate_0_upt filter_map comp_def)

lemma length_filter_upt: "length (filter P [0..<n]) = card {i. i < n \<and> P i}"
proof -
  have "set (filter P [0..<n]) = {i. i < n \<and> P i}" by auto
  then show ?thesis
    using distinct_card[of "filter P [0..<n]"] by simp
qed

lemma Customize_nonempty:
  assumes "cols \<noteq> []"
  shows "Customize h cols wide =
     Inr (map (\<lambda>k. if snd (IndexOf h (cols ! k) True)
                    then (h ! nat (fst (IndexOf h (cols ! k) True)))\<lparr>Wide := False\<rparr>
                    else namedColumn (CustomName (bagAt (snd (MapIndices h cols wide)) (int k))))
            [0..<length cols]
          @ (if wide
             then map (\<lambda>i. (h ! i)\<lparr>Wide := True\<rparr>)
                    (filter (\<lambda>i. \<not> (\<exists>s\<in>set cols. IndexOf h s True = (int i, True)))
                       [0..<length h])
             else []))"
proof -
  have w: "Customize_wide h 0 xx cc =
      cc @ map (\<lambda>i. (h ! i)\<lparr>Wide := True\<rparr>) (filter (\<lambda>i. xx (int i) = None) [0..<length h])"
    for xx cc
    using Customize_wide_eq[of h 0 xx cc]
      wide_columns_by_index[of "\<lambda>c. c\<lparr>Wide := True\<rparr>" "\<lambda>k. xx (int k) = None" h]
    by simp
  show ?thesis
    using assms
    by (simp add: Customize_def Customize_specs_eq w split: prod.splits)
qed

lemma bag_custom_name:
  assumes "k < length cols"
  shows "CustomName (bagAt (snd (MapIndices h cols wide)) (int k)) =
     (if MatchString rgx (cols ! k) \<and> FindStringSubmatch rgx (cols ! k) ! 2 = ''LABELS''
      then TrimSpace (FindStringSubmatch rgx (cols ! k) ! 1) else [])"
  using assms by (simp add: bagAt_def MapIndices_snd zeroExtractionInfo_def)

text \<open>\<open>Customize\<close> never panics: the index it reads was found by \<open>IndexOf\<close>.\<close>

lemma Customize_total: "\<exists>r. Customize h cols wide = Inr r"
proof (cases "cols = []")
  case True
  then show ?thesis by (simp add: Customize_def)
next
  case False
  show ?thesis unfolding Customize_nonempty[OF False] by blast
qed

text \<open>
  C6. With an empty list of specs \<open>Customize\<close> returns the header it was given, for
  both values of \<open>wide\<close>.
\<close>

theorem Customize_empty_specs: "Customize h [] wide = Inr h"
  by (simp add: Customize_def)

text \<open>
  C3. For a non-empty list of specs \<open>Customize(specs, false)\<close> returns, without
  panicking, a header of exactly \<open>len(specs)\<close> columns. At the position of a spec that
  \<open>IndexOf\<close> resolves (wide columns included) stands the column at that index with
  \<open>Wide\<close> set to false; at the position of any other spec stands a column with every
  field zero but its name, which is the custom name the bag holds for that position: the
  trimmed text of group 1 for a LABELS spec, the empty string otherwise.
\<close>

theorem Customize_not_wide:
  assumes "cols \<noteq> []"
  shows "\<exists>r. Customize h cols False = Inr r \<and> length r = length cols
     \<and> (\<forall>k<length cols.
          (snd (IndexOf h (cols ! k) True) \<longrightarrow>
             0 \<le> fst (IndexOf h (cols ! k) True)
             \<and> fst (IndexOf h (cols ! k) True) < int (length h)
             \<and> r ! k = (h ! nat (fst (IndexOf h (cols ! k) True)))\<lparr>Wide := False\<rparr>)
          \<and> (\<not> snd (IndexOf h (cols ! k) True) \<longrightarrow>
             Name (r ! k) = CustomName (bagAt (snd (MapIndices h cols False)) (int k))
             \<and> r ! k =
                 \<lparr>Name = (if MatchString rgx (cols ! k)
                              \<and> FindStringSubmatch rgx (cols ! k) ! 2 = ''LABELS''
                           then TrimSpace (FindStringSubmatch rgx (cols ! k) ! 1) else []),
                  Align = 0, Decorator = None, Wide = False, MX = False, Time = False,
                  Capacity = False, VS = False\<rparr>))"
proof -
  have rng: "0 \<le> fst (IndexOf h c True) \<and> fst (IndexOf h c True) < int (length h)"
    if "snd (IndexOf h c True)" for c
    using that IndexOf_ok_range(1,2)[of h c True "fst (IndexOf h c True)"]
    by (cases "IndexOf h c True") simp
  show ?thesis
    unfolding Customize_nonempty[OF assms]
    using rng
    by (simp add: bag_custom_name namedColumn_def zeroHeaderColumn_def)
qed

text \<open>
  C2. For a non-empty list of specs \<open>Customize(specs, true)\<close> returns a header of
  \<open>len(specs)\<close> columns plus one for each index of the original header that no spec
  resolved to. Its first \<open>len(specs)\<close> columns are the result of
  \<open>Customize(specs, false)\<close>; after them come the columns at the unresolved indices,
  in their original order, with \<open>Wide\<close> set to true.
\<close>

theorem Customize_wide_appends_unmatched:
  assumes "cols \<noteq> []"
  shows "\<exists>r. Customize h cols True = Inr r
     \<and> length r = length cols
          + card {i. i < length h \<and> \<not> (\<exists>s\<in>set cols. IndexOf h s True = (int i, True))}
     \<and> Customize h cols False = Inr (take (length cols) r)
     \<and> drop (length cols) r =
          map (\<lambda>i. (h ! i)\<lparr>Wide := True\<rparr>)
            (filter (\<lambda>i. \<not> (\<exists>s\<in>set cols. IndexOf h s True = (int i, True)))
               [0..<length h])"
  unfolding Customize_nonempty[OF assms]
  by (simp add: length_filter_upt MapIndices_def)

text \<open>
  C10. \<open>Customize(specs, true)\<close> with a non-empty list of specs loses no column of the
  original header. Every index \<open>i\<close> of the header either is resolved by some spec, and
  then the column stands at that spec's position with \<open>Wide\<close> set to false, or is
  resolved by none, and then the column stands after the requested ones with \<open>Wide\<close>
  set to true. In both cases the result holds the column up to its \<open>Wide\<close> flag.
\<close>

theorem Customize_wide_keeps_every_column:
  assumes "cols \<noteq> []" and "i < length h"
  shows "\<exists>r. Customize h cols True = Inr r
     \<and> ((\<exists>j<length cols. IndexOf h (cols ! j) True = (int i, True)
             \<and> r ! j = (h ! i)\<lparr>Wide := False\<rparr>)
         \<or> (\<not> (\<exists>s\<in>set cols. IndexOf h s True = (int i, True))
             \<and> (\<exists>j. length cols \<le> j \<and> j < length r \<and> r ! j = (h ! i)\<lparr>Wide := True\<rparr>)))
     \<and> (\<exists>j<length r. (r ! j)\<lparr>Wide := Wide (h ! i)\<rparr> = h ! i)"
proof -
  let ?req = "map (\<lambda>k. if snd (IndexOf h (cols ! k) True)
                    then (h ! nat (fst (IndexOf h (cols ! k) True)))\<lparr>Wide := False\<rparr>
                    else namedColumn (CustomName (bagAt (snd (MapIndices h cols True)) (int k))))
            [0..<length cols]"
  let ?un = "filter (\<lambda>i. \<not> (\<exists>s\<in>set cols. IndexOf h s True = (int i, True))) [0..<length h]"
  let ?r = "?req @ map (\<lambda>i. (h ! i)\<lparr>Wide := True\<rparr>) ?un"
  have r: "Customize h cols True = Inr ?r"
    unfolding Customize_nonempty[OF assms(1)] by simp
  have len: "length ?req = length cols" by simp
  have alt: "(\<exists>j<length cols. IndexOf h (cols ! j) True = (int i, True)
             \<and> ?r ! j = (h ! i)\<lparr>Wide := False\<rparr>)
         \<or> (\<not> (\<exists>s\<in>set cols. IndexOf h s True = (int i, True))
             \<and> (\<exists>j. length cols \<le> j \<and> j < length ?r \<and> ?r ! j = (h ! i)\<lparr>Wide := True\<rparr>))"
  proof (cases "\<exists>s\<in>set cols. IndexOf h s True = (int i, True)")
    case True
    then obtain j where j: "j < length cols" "IndexOf h (cols ! j) True = (int i, True)"
      by (auto simp: in_set_conv_nth)
    then have "?r ! j = (h ! i)\<lparr>Wide := False\<rparr>"
      by (simp add: nth_append)
    with j show ?thesis by blast
  next
    case False
    with assms(2) have "i \<in> set ?un" by simp
    then obtain m where m: "m < length ?un" "?un ! m = i"
      unfolding in_set_conv_nth by blast
    have "?r ! (length cols + m) = (h ! i)\<lparr>Wide := True\<rparr>"
      using m by (simp add: nth_append del: upt.simps)
    moreover have "length cols + m < length ?r"
      using m(1) by simp
    ultimately show ?thesis using False by (meson le_add1)
  qed
  then have "\<exists>j<length ?r. (?r ! j)\<lparr>Wide := Wide (h ! i)\<rparr> = h ! i"
  proof (elim disjE exE conjE)
    fix j assume "j < length cols" "?r ! j = (h ! i)\<lparr>Wide := False\<rparr>"
    then have "j < length ?r \<and> (?r ! j)\<lparr>Wide := Wide (h ! i)\<rparr> = h ! i"
      by simp
    then show ?thesis by blast
  next
    fix j assume "j < length ?r" "?r ! j = (h ! i)\<lparr>Wide := True\<rparr>"
    then have "j < length ?r \<and> (?r ! j)\<lparr>Wide := Wide (h ! i)\<rparr> = h ! i"
      by simp
    then show ?thesis by blast
  qed
  with r alt show ?thesis by blast
qed

lemma MapIndices_single:
  "MapIndices h [s] wide =
     ([fst (IndexOf h s True)],
      if MatchString rgx s \<and> FindStringSubmatch rgx s ! 2 = ''LABELS''
      then [0 \<mapsto> \<lparr>IdxInFields = fst (IndexOf h ''LABELS'' True),
                   CustomName = TrimSpace (FindStringSubmatch rgx s ! 1),
                   HeaderName = ''LABELS'',
                   Key = FindStringSubmatch rgx s ! 3\<rparr>]
      else Map.empty)"
  unfolding MapIndices_def MapIndices_loop_step by simp

lemma Customize_single:
  "Customize h [s] False =
     Inr [if snd (IndexOf h s True)
          then (h ! nat (fst (IndexOf h s True)))\<lparr>Wide := False\<rparr>
          else namedColumn
                 (if MatchString rgx s \<and> FindStringSubmatch rgx s ! 2 = ''LABELS''
                  then TrimSpace (FindStringSubmatch rgx s ! 1) else [])]"
  using bag_custom_name[of 0 "[s]" h False]
  by (simp add: Customize_nonempty)

text \<open>
  C7, amended. Let a spec name no column of the header and be no LABELS spec. Then
  \<open>MapIndices\<close> of that spec alone returns the index list \<open>[-1]\<close> and an empty
  bag; \<open>Customize\<close> of that spec alone returns the single column named \<open>""\<close>
  when \<open>wide\<close> is false, and that column followed by every original column with
  \<open>Wide\<close> set to true when \<open>wide\<close> is true. Inside any list of specs the spec
  yields \<open>-1\<close>, no bag entry and the column named \<open>""\<close> at its own position,
  \<open>Customize\<close> does not panic, and every other spec of the list yields the column it
  yields alone.
\<close>

theorem unknown_spec_soft_degradation:
  assumes "\<not> snd (IndexOf h s True)"
    and "\<not> (MatchString rgx s \<and> FindStringSubmatch rgx s ! 2 = ''LABELS'')"
  shows "MapIndices h [s] wide = ([- 1], Map.empty)
     \<and> Customize h [s] False = Inr [namedColumn []]
     \<and> Customize h [s] True = Inr (namedColumn [] # map (\<lambda>c. c\<lparr>Wide := True\<rparr>) h)
     \<and> (\<forall>cols k. k < length cols \<and> cols ! k = s \<longrightarrow>
          (\<exists>r. Customize h cols wide = Inr r \<and> length cols \<le> length r
             \<and> r ! k = namedColumn []
             \<and> fst (MapIndices h cols wide) ! k = - 1
             \<and> snd (MapIndices h cols wide) (int k) = None
             \<and> (\<forall>j<length cols. Customize h [cols ! j] False = Inr [r ! j])))"
proof -
  have idx: "fst (IndexOf h s True) = - 1"
    using assms(1) IndexOf_not_ok[of h s True "fst (IndexOf h s True)"]
    by (cases "IndexOf h s True") simp
  have nl: "(MatchString rgx s \<and> FindStringSubmatch rgx s ! 2 = ''LABELS'') = False"
    using assms(2) by simp
  have m: "MapIndices h [s] wide = ([- 1], Map.empty)"
    using idx by (simp add: MapIndices_single nl)
  have c1: "Customize h [s] False = Inr [namedColumn []]"
    using assms(1) by (simp add: Customize_single nl)
  have none: "IndexOf h s True \<noteq> (j, True)" for j
    using assms(1) by auto
  have "map (\<lambda>i. (h ! i)\<lparr>Wide := True\<rparr>) [0..<length h]
          = map (\<lambda>c. c\<lparr>Wide := True\<rparr>) (map ((!) h) [0..<length h])"
    by simp
  then have all: "map (\<lambda>i. (h ! i)\<lparr>Wide := True\<rparr>) [0..<length h]
          = map (\<lambda>c. c\<lparr>Wide := True\<rparr>) h"
    by (simp only: map_nth)
  have c2: "Customize h [s] True = Inr (namedColumn [] # map (\<lambda>c. c\<lparr>Wide := True\<rparr>) h)"
    using assms(1) bag_custom_name[of 0 "[s]" h True] none all
    by (simp add: Customize_nonempty nl)
  have rest: "\<exists>r. Customize h cols wide = Inr r \<and> length cols \<le> length r
             \<and> r ! k = namedColumn []
             \<and> fst (MapIndices h cols wide) ! k = - 1
             \<and> snd (MapIndices h cols wide) (int k) = None
             \<and> (\<forall>j<length cols. Customize h [cols ! j] False = Inr [r ! j])"
    if k: "k < length cols" "cols ! k = s" for cols k
  proof -
    from k have ne: "cols \<noteq> []" by auto
    have f: "fst (MapIndices h cols wide) ! k = - 1"
      using k idx by (simp add: MapIndices_def MapIndices_loop_fst)
    have b: "snd (MapIndices h cols wide) (int k) = None"
      using k by (simp add: MapIndices_snd nl)
    show ?thesis
      unfolding Customize_nonempty[OF ne]
      using k assms(1) f b
      by (simp add: nth_append bag_custom_name Customize_single nl del: upt.simps)
  qed
  from m c1 c2 rest show ?thesis by blast
qed

subsection \<open>Diff\<close>

lemma columnDeepEqual_eq: "columnDeepEqual a b \<Longrightarrow> a = b"
  by (cases a, cases b) (simp add: columnDeepEqual_def funcDeepEqual_def)

lemma columnDeepEqual_refl: "Decorator a = None \<Longrightarrow> columnDeepEqual a a"
  by (simp add: columnDeepEqual_def funcDeepEqual_def)

lemma same_slice: "ptr a = ptr b \<Longrightarrow> len a = len b \<Longrightarrow> a = b"
  by (cases a; cases b) simp_all

lemma Diff_lengths_differ: "len h \<noteq> len header \<Longrightarrow> Diff st h header"
  by (simp add: Diff_def)

lemma Diff_column_differs:
  assumes "len h = len header" and "elems st h \<noteq> elems st header"
  shows "Diff st h header"
proof -
  have "list_all2 columnDeepEqual xs ys \<Longrightarrow> xs = ys" for xs ys
    by (induction rule: list_all2_induct) (auto dest: columnDeepEqual_eq)
  then show ?thesis
    using assms same_slice[of h header] by (auto simp: Diff_def DeepEqual_def)
qed

lemma Diff_unchanged_without_decorators:
  assumes "isNil h = isNil header" and "elems st h = elems st header"
    and "\<forall>c\<in>set (elems st h). Decorator c = None"
  shows "\<not> Diff st h header"
proof -
  have "list_all2 columnDeepEqual xs xs" if "\<forall>c\<in>set xs. Decorator c = None" for xs
    using that by (induction xs) (auto simp: columnDeepEqual_refl)
  then have "list_all2 columnDeepEqual (elems st h) (elems st header)"
    using assms by simp
  moreover have "len h = len header"
    using assms(2) by (cases h; cases header) (auto dest: arg_cong[where f = length])
  ultimately show ?thesis
    using assms(1) by (simp add: Diff_def DeepEqual_def)
qed

text \<open>
  C1. A header of one column with a decorator, and a copy of it in another array: the two
  have the same length and the same columns, decorator included, and \<open>Diff\<close> returns
  true.
\<close>

theorem Diff_of_equal_decorated_headers:
  "elems (\<lambda>a. \<lparr>Name = ''AGE'', Align = 0, Decorator = Some 0, Wide = False, MX = False,
                Time = True, Capacity = False, VS = False\<rparr>) (Slice 0 1)
     = elems (\<lambda>a. \<lparr>Name = ''AGE'', Align = 0, Decorator = Some 0, Wide = False, MX = False,
                Time = True, Capacity = False, VS = False\<rparr>) (Slice 1 1)
   \<and> Diff (\<lambda>a. \<lparr>Name = ''AGE'', Align = 0, Decorator = Some 0, Wide = False, MX = False,
                Time = True, Capacity = False, VS = False\<rparr>) (Slice 0 1) (Slice 1 1)"
  by (simp add: Diff_def DeepEqual_def columnDeepEqual_def funcDeepEqual_def)

lemma Diff_nil_and_empty: "Diff st NilSlice (Slice p 0)"
  by (simp add: Diff_def DeepEqual_def)

subsection \<open>Concrete headers\<close>

lemma rgx_example_labels:
  "FindStringSubmatch rgx ''grp: LABELS[app]'' = [''grp: LABELS[app]'', ''grp'', ''LABELS'', ''app'']"
  by (simp add: FindStringSubmatch_def rgx_def group_text_def)

lemma rgx_example_no_name:
  "FindStringSubmatch rgx ''LABELS[app]'' = [''LABELS[app]'', [], ''LABELS'', ''app'']"
  by (simp add: FindStringSubmatch_def rgx_def group_text_def)

lemma rgx_example_colons:
  "FindStringSubmatch rgx ''a:b:c[d]'' = [''a:b:c[d]'', ''a'', ''b:c'', ''d'']"
  "FindStringSubmatch rgx '':c[d]'' = ['':c[d]'', [], '':c'', ''d'']"
  "FindStringSubmatch rgx ''x[y][z]'' = [''x[y][z]'', [], ''x[y]'', ''z'']"
  "FindStringSubmatch rgx ''LABELS[app] '' = []"
  by (simp_all add: FindStringSubmatch_def rgx_def group_text_def)

lemma rgx_example_plain:
  "\<not> MatchString rgx ''NAME''" "\<not> MatchString rgx ''UNKNOWN''"
  by (simp_all add: MatchString_def rgx_def)

lemma rgx_example_match: "MatchString rgx ''grp: LABELS[app]''"
  by (simp add: MatchString_def rgx_def)

lemma TrimSpace_example: "TrimSpace ''grp'' = ''grp''" "TrimSpace '' a b  '' = ''a b''"
  by (simp_all add: TrimSpace_def spaces_def space_prefix_def)

lemma IndexOf_example:
  "IndexOf [namedColumn ''NAME'', namedColumn ''AGE'', namedColumn ''LABELS''] ''NAME'' True = (0, True)"
  "IndexOf [namedColumn ''NAME'', namedColumn ''AGE'', namedColumn ''LABELS''] ''LABELS'' True = (2, True)"
  "IndexOf [namedColumn ''NAME'', namedColumn ''AGE'', namedColumn ''LABELS''] ''AGE'' True = (1, True)"
  "IndexOf [namedColumn ''NAME'', namedColumn ''AGE'', namedColumn ''LABELS''] ''grp: LABELS[app]'' True = (- 1, False)"
  "IndexOf [namedColumn ''NAME'', namedColumn ''AGE'', namedColumn ''LABELS''] ''UNKNOWN'' True = (- 1, False)"
  by (simp_all add: IndexOf_def namedColumn_def zeroHeaderColumn_def)

lemma Customize_example_wide:
  "Customize [namedColumn ''NAME'', namedColumn ''AGE'', namedColumn ''LABELS'']
        [''NAME'', ''grp: LABELS[app]''] True
      = Inr [namedColumn ''NAME'', namedColumn ''grp'',
             (namedColumn ''AGE'')\<lparr>Wide := True\<rparr>, (namedColumn ''LABELS'')\<lparr>Wide := True\<rparr>]"
proof -
  have m: "MapIndices [namedColumn ''NAME'', namedColumn ''AGE'', namedColumn ''LABELS'']
        [''NAME'', ''grp: LABELS[app]''] True
      = ([0, - 1], [1 \<mapsto> \<lparr>IdxInFields = 2, CustomName = ''grp'', HeaderName = ''LABELS'',
                             Key = ''app''\<rparr>])"
    by (simp add: MapIndices_def IndexOf_example rgx_example_plain rgx_example_match
        rgx_example_labels TrimSpace_example)
  show ?thesis
    unfolding Customize_def m
    by (simp add: IndexOf_example at_index_def bagAt_def HeaderColumn_Clone_def)
      (simp add: namedColumn_def zeroHeaderColumn_def)
qed

lemma Customize_example_unknown:
  "Customize [namedColumn ''NAME''] [''UNKNOWN''] True
     = Inr [namedColumn [], (namedColumn ''NAME'')\<lparr>Wide := True\<rparr>]"
proof -
  have i: "IndexOf [namedColumn ''NAME''] ''UNKNOWN'' True = (- 1, False)"
    by (simp add: IndexOf_def namedColumn_def zeroHeaderColumn_def)
  have m: "MapIndices [namedColumn ''NAME''] [''UNKNOWN''] True = ([- 1], Map.empty)"
    by (simp add: MapIndices_def i rgx_example_plain)
  show ?thesis
    unfolding Customize_def m
    by (simp add: i bagAt_def HeaderColumn_Clone_def zeroExtractionInfo_def)
qed


theorem MapIndices_bag_witness:
  "snd (MapIndices [namedColumn ''NAME'', namedColumn ''AGE'', namedColumn ''LABELS'']
          [''NAME'', ''grp: LABELS[app]''] False) 1
     = Some \<lparr>IdxInFields = 2, CustomName = ''grp'', HeaderName = ''LABELS'', Key = ''app''\<rparr>
   \<and> snd (MapIndices [namedColumn ''NAME'', namedColumn ''AGE'', namedColumn ''LABELS'']
          [''NAME'', ''grp: LABELS[app]''] False) 0 = None"
  using
    MapIndices_bag [of "[namedColumn ''NAME'', namedColumn ''AGE'', namedColumn ''LABELS'']"
      "[''NAME'', ''grp: LABELS[app]'']" False 1]
    MapIndices_bag [of "[namedColumn ''NAME'', namedColumn ''AGE'', namedColumn ''LABELS'']"
      "[''NAME'', ''grp: LABELS[app]'']" False 0]
  by (simp add: rgx_example_labels rgx_example_plain rgx_example_match TrimSpace_example
      IndexOf_example)

theorem MapIndices_indices_witness:
  "length (fst (MapIndices [namedColumn ''NAME'', namedColumn ''AGE'', namedColumn ''LABELS'']
          [''NAME'', ''grp: LABELS[app]''] False)) = 2
   \<and> fst (MapIndices [namedColumn ''NAME'', namedColumn ''AGE'', namedColumn ''LABELS'']
          [''NAME'', ''grp: LABELS[app]''] False) ! 0 = 0
   \<and> fst (MapIndices [namedColumn ''NAME'', namedColumn ''AGE'', namedColumn ''LABELS'']
          [''NAME'', ''grp: LABELS[app]''] False) ! 1 = - 1"
proof -
  let ?h = "[namedColumn ''NAME'', namedColumn ''AGE'', namedColumn ''LABELS'']"
  let ?cols = "[''NAME'', ''grp: LABELS[app]'']"
  note t = MapIndices_indices [of ?h ?cols False]
  from t have len: "length (fst (MapIndices ?h ?cols False)) = 2" by simp
  from t have "\<forall>k<length ?cols. fst (MapIndices ?h ?cols False) ! k = fst (IndexOf ?h (?cols ! k) True)"
    by blast
  then have "fst (MapIndices ?h ?cols False) ! 0 = fst (IndexOf ?h (?cols ! 0) True)"
    "fst (MapIndices ?h ?cols False) ! 1 = fst (IndexOf ?h (?cols ! 1) True)"
    by simp_all
  with len show ?thesis by (simp add: IndexOf_example)
qed

theorem Customize_empty_specs_witness:
  "Customize [namedColumn ''NAME'', (namedColumn ''AGE'')\<lparr>Wide := True\<rparr>] [] True
     = Inr [namedColumn ''NAME'', (namedColumn ''AGE'')\<lparr>Wide := True\<rparr>]"
  using Customize_empty_specs [of "[namedColumn ''NAME'', (namedColumn ''AGE'')\<lparr>Wide := True\<rparr>]" True]
  by simp

theorem Customize_not_wide_witness:
  "[''NAME'', ''grp: LABELS[app]''] \<noteq> []
   \<and> Customize [namedColumn ''NAME'', namedColumn ''AGE'', namedColumn ''LABELS'']
        [''NAME'', ''grp: LABELS[app]''] False
      = Inr [namedColumn ''NAME'', namedColumn ''grp'']"
proof -
  let ?h = "[namedColumn ''NAME'', namedColumn ''AGE'', namedColumn ''LABELS'']"
  let ?cols = "[''NAME'', ''grp: LABELS[app]'']"
  have ne: "?cols \<noteq> []" by simp
  from Customize_not_wide [OF ne, of ?h]
  obtain r where r: "Customize ?h ?cols False = Inr r" "length r = length ?cols"
    and all: "\<forall>k<length ?cols.
          (snd (IndexOf ?h (?cols ! k) True) \<longrightarrow>
             r ! k = (?h ! nat (fst (IndexOf ?h (?cols ! k) True)))\<lparr>Wide := False\<rparr>)
          \<and> (\<not> snd (IndexOf ?h (?cols ! k) True) \<longrightarrow>
             r ! k =
                 \<lparr>Name = (if MatchString rgx (?cols ! k)
                              \<and> FindStringSubmatch rgx (?cols ! k) ! 2 = ''LABELS''
                           then TrimSpace (FindStringSubmatch rgx (?cols ! k) ! 1) else []),
                  Align = 0, Decorator = None, Wide = False, MX = False, Time = False,
                  Capacity = False, VS = False\<rparr>)"
    by blast
  from all[rule_format, of 0] have "r ! 0 = (namedColumn ''NAME'')\<lparr>Wide := False\<rparr>"
    by (simp add: IndexOf_example)
  then have "r ! 0 = namedColumn ''NAME''"
    by (simp add: namedColumn_def zeroHeaderColumn_def)
  moreover from all[rule_format, of 1] have "r ! 1 =
      \<lparr>Name = ''grp'', Align = 0, Decorator = None, Wide = False, MX = False, Time = False,
       Capacity = False, VS = False\<rparr>"
    by (simp add: IndexOf_example rgx_example_labels rgx_example_match TrimSpace_example)
  then have "r ! 1 = namedColumn ''grp''"
    by (simp add: namedColumn_def zeroHeaderColumn_def)
  moreover from r(2) have "r = [r ! 0, r ! 1]"
    by (cases r; cases "tl r") auto
  ultimately have "r = [namedColumn ''NAME'', namedColumn ''grp'']" by simp
  with r(1) ne show ?thesis by simp
qed

theorem MapIndices_ignores_wide_witness:
  "MapIndices [namedColumn ''NAME'', namedColumn ''AGE'', namedColumn ''LABELS'']
     [''NAME'', ''grp: LABELS[app]''] True
   = MapIndices [namedColumn ''NAME'', namedColumn ''AGE'', namedColumn ''LABELS'']
     [''NAME'', ''grp: LABELS[app]''] False"
  using MapIndices_ignores_wide [of "[namedColumn ''NAME'', namedColumn ''AGE'', namedColumn ''LABELS'']"
      "[''NAME'', ''grp: LABELS[app]'']"]
  by simp

theorem Customize_wide_appends_unmatched_witness:
  "[''NAME'', ''grp: LABELS[app]''] \<noteq> []
   \<and> Customize [namedColumn ''NAME'', namedColumn ''AGE'', namedColumn ''LABELS'']
        [''NAME'', ''grp: LABELS[app]''] True
      = Inr [namedColumn ''NAME'', namedColumn ''grp'',
             (namedColumn ''AGE'')\<lparr>Wide := True\<rparr>, (namedColumn ''LABELS'')\<lparr>Wide := True\<rparr>]
   \<and> card {i. i < length [namedColumn ''NAME'', namedColumn ''AGE'', namedColumn ''LABELS'']
              \<and> \<not> (\<exists>s\<in>set [''NAME'', ''grp: LABELS[app]''].
                     IndexOf [namedColumn ''NAME'', namedColumn ''AGE'', namedColumn ''LABELS'']
                       s True = (int i, True))} = 2"
proof -
  let ?h = "[namedColumn ''NAME'', namedColumn ''AGE'', namedColumn ''LABELS'']"
  let ?cols = "[''NAME'', ''grp: LABELS[app]'']"
  have ne: "?cols \<noteq> []" by simp
  from Customize_wide_appends_unmatched [OF ne, of ?h]
  obtain r where r: "Customize ?h ?cols True = Inr r"
    and len: "length r = length ?cols
          + card {i. i < length ?h \<and> \<not> (\<exists>s\<in>set ?cols. IndexOf ?h s True = (int i, True))}"
    by blast
  from r have "r = [namedColumn ''NAME'', namedColumn ''grp'',
             (namedColumn ''AGE'')\<lparr>Wide := True\<rparr>, (namedColumn ''LABELS'')\<lparr>Wide := True\<rparr>]"
    by (simp add: Customize_example_wide)
  with len have "card {i. i < length ?h
      \<and> \<not> (\<exists>s\<in>set ?cols. IndexOf ?h s True = (int i, True))} = 2"
    by simp
  with ne Customize_example_wide show ?thesis by blast
qed

theorem Customize_wide_keeps_every_column_witness:
  "[''NAME'', ''grp: LABELS[app]''] \<noteq> []
   \<and> 1 < length [namedColumn ''NAME'', namedColumn ''AGE'', namedColumn ''LABELS'']
   \<and> (\<exists>j<4. ([namedColumn ''NAME'', namedColumn ''grp'',
               (namedColumn ''AGE'')\<lparr>Wide := True\<rparr>,
               (namedColumn ''LABELS'')\<lparr>Wide := True\<rparr>] ! j)\<lparr>Wide := False\<rparr>
             = namedColumn ''AGE'')"
proof -
  let ?h = "[namedColumn ''NAME'', namedColumn ''AGE'', namedColumn ''LABELS'']"
  let ?cols = "[''NAME'', ''grp: LABELS[app]'']"
  have ne: "?cols \<noteq> []" by simp
  have lt: "1 < length ?h" by simp
  from Customize_wide_keeps_every_column [OF ne lt]
  obtain r j where r: "Customize ?h ?cols True = Inr r"
    and j: "j < length r" "(r ! j)\<lparr>Wide := Wide (?h ! 1)\<rparr> = ?h ! 1"
    by blast
  from r have req: "r = [namedColumn ''NAME'', namedColumn ''grp'',
             (namedColumn ''AGE'')\<lparr>Wide := True\<rparr>, (namedColumn ''LABELS'')\<lparr>Wide := True\<rparr>]"
    by (simp add: Customize_example_wide)
  have w: "Wide (namedColumn ''AGE'') = False"
    by (simp add: namedColumn_def zeroHeaderColumn_def)
  from j have "j < 4" "(r ! j)\<lparr>Wide := False\<rparr> = namedColumn ''AGE''"
    by (simp_all add: req w)
  with ne lt show ?thesis unfolding req by blast
qed

theorem unknown_spec_soft_degradation_witness:
  "\<not> snd (IndexOf [namedColumn ''NAME'', namedColumn ''AGE'', namedColumn ''LABELS'']
           ''UNKNOWN'' True)
   \<and> \<not> (MatchString rgx ''UNKNOWN'' \<and> FindStringSubmatch rgx ''UNKNOWN'' ! 2 = ''LABELS'')
   \<and> MapIndices [namedColumn ''NAME'', namedColumn ''AGE'', namedColumn ''LABELS'']
        [''UNKNOWN''] False = ([- 1], Map.empty)
   \<and> Customize [namedColumn ''NAME'', namedColumn ''AGE'', namedColumn ''LABELS'']
        [''UNKNOWN''] False = Inr [namedColumn []]
   \<and> Customize [namedColumn ''NAME'', namedColumn ''AGE'', namedColumn ''LABELS'']
        [''UNKNOWN''] True
      = Inr [namedColumn [], (namedColumn ''NAME'')\<lparr>Wide := True\<rparr>,
             (namedColumn ''AGE'')\<lparr>Wide := True\<rparr>, (namedColumn ''LABELS'')\<lparr>Wide := True\<rparr>]"
proof -
  let ?h = "[namedColumn ''NAME'', namedColumn ''AGE'', namedColumn ''LABELS'']"
  have h1: "\<not> snd (IndexOf ?h ''UNKNOWN'' True)"
    by (simp add: IndexOf_example)
  have h2: "\<not> (MatchString rgx ''UNKNOWN'' \<and> FindStringSubmatch rgx ''UNKNOWN'' ! 2 = ''LABELS'')"
    by (simp add: rgx_example_plain)
  from unknown_spec_soft_degradation [OF h1 h2, of False]
  have "MapIndices ?h [''UNKNOWN''] False = ([- 1], Map.empty)"
    "Customize ?h [''UNKNOWN''] False = Inr [namedColumn []]"
    "Customize ?h [''UNKNOWN''] True = Inr (namedColumn [] # map (\<lambda>c. c\<lparr>Wide := True\<rparr>) ?h)"
    by blast+
  with h1 h2 show ?thesis by simp
qed

theorem unknown_spec_one_column_counterexample:
  "\<not> snd (IndexOf [namedColumn ''NAME''] ''UNKNOWN'' True)
   \<and> \<not> MatchString rgx ''UNKNOWN''
   \<and> Customize [namedColumn ''NAME''] [''UNKNOWN''] True
       = Inr [namedColumn [], (namedColumn ''NAME'')\<lparr>Wide := True\<rparr>]"
  by (simp add: Customize_example_unknown rgx_example_plain)
    (simp add: IndexOf_def namedColumn_def zeroHeaderColumn_def)

end
